theory Spec2Isabelle
  imports Main
begin

section \<open>The document tree\<close>

text \<open>
  The writer of \<^verbatim>\<open>org/org.go\<close> walks a tree of \<^verbatim>\<open>Node\<close> values. In Go,
  \<^verbatim>\<open>Node\<close> is an interface, so a sequence of nodes may hold a value of one of the
  struct types the type switch of \<^verbatim>\<open>writeNodes\<close> knows, the nil interface
  (\<open>NilNode\<close>), or a value of any other type (\<open>Other\<close>, carrying a printed form of
  the value). Only the fields the writer reads are kept. A \<^verbatim>\<open>*FootnoteDefinition\<close>
  is an \<open>option\<close>; the description of a link is an optional list, since the code tests the
  slice against nil.
\<close>

datatype 'n FootnoteDefinition =
  FootnoteDefinition (Name: string) (Children: "'n list") (Inline: bool)

datatype Node =
    Comment string
  | Keyword string string
  | NodeWithMeta Node "Node list list" "string list list"
  | Headline int string string "Node list" "string list" "Node list"
  | Block string "string list" "Node list"
  | FootnoteDefinitionNode "Node FootnoteDefinition"
  | List "Node list"
  | ListItem string "Node list"
  | Table Node "Node list"
  | TableHeader "Node list list" Node
  | TableRow "Node list list"
  | TableSeparator string
  | Paragraph "Node list"
  | HorizontalRule
  | Text string
  | Emphasis string "Node list"
  | LineBreak int
  | ExplicitLineBreak
  | RegularLink string "Node list option" bool
  | FootnoteLink string "Node FootnoteDefinition option"
  | NilNode
  | Other string


section \<open>Panics\<close>

text \<open>
  Every way the writer can panic is a value: the two explicit \<^verbatim>\<open>panic\<close> calls
  (\<open>BadNode\<close>, \<open>BadEmphasis\<close>, each carrying the offending value that the message
  prints with \<^verbatim>\<open>%#v\<close>), an index out of range, a failed type assertion, and the
  negative count that \<^verbatim>\<open>strings.Repeat\<close> refuses.
\<close>

datatype error =
    BadNode Node
  | BadEmphasis Node
  | IndexOutOfRange
  | BadTypeAssertion Node
  | NegativeRepeat

section \<open>The writer and the footnote table\<close>

text \<open>
  \<^verbatim>\<open>OrgWriter\<close> embeds a \<^verbatim>\<open>strings.Builder\<close>; its content is the field
  \<open>stringBuilder\<close>. A Go string is a sequence of bytes and \<^verbatim>\<open>len\<close> counts bytes,
  as \<open>length\<close> does on \<open>string\<close>.
\<close>

record OrgWriter =
  TagsColumn :: int
  stringBuilder :: string
  indent :: string

text \<open>
  The footnote table of a document: its title and its definitions. The Go field
  \<^verbatim>\<open>Definitions\<close> is a map from names to definitions, kept here as an association
  list; the writer only asks whether it is empty.
\<close>

record Footnotes =
  Title :: string
  Definitions :: "(string \<times> Node FootnoteDefinition) list"

record Document =
  Nodes :: "Node list"
  Footnotes :: Footnotes

text \<open>
  Three functions of the package are called by the writer and defined outside
  \<^verbatim>\<open>org.go\<close>: \<^verbatim>\<open>isRawTextBlock\<close>, \<^verbatim>\<open>isEmptyLineParagraph\<close> and the method
  \<^verbatim>\<open>Ordered\<close> of the footnote table. They are parameters of the model: every
  function below takes them in a record \<open>H\<close>, and every theorem holds for any choice.
\<close>

record helpers =
  isRawTextBlock :: "string \<Rightarrow> bool"
  isEmptyLineParagraph :: "Node \<Rightarrow> bool"
  Ordered :: "Footnotes \<Rightarrow> Node FootnoteDefinition list"

section \<open>Strings\<close>

abbreviation NL :: string where
  "NL \<equiv> [CHR 0x0A]"

definition WriteString :: "OrgWriter \<Rightarrow> string \<Rightarrow> OrgWriter" where
  "WriteString w s = w\<lparr>stringBuilder := stringBuilder w @ s\<rparr>"

definition String :: "OrgWriter \<Rightarrow> string" where
  "String w = stringBuilder w"

definition emptyClone :: "OrgWriter \<Rightarrow> OrgWriter" where
  "emptyClone w = w\<lparr>stringBuilder := []\<rparr>"

text \<open>
  \<^verbatim>\<open>strings.Repeat\<close> panics on a negative count. Strings are lists of any length
  here: that a very long result does not fit in memory is not part of the model.
\<close>

definition Repeat :: "string \<Rightarrow> int \<Rightarrow> error + string" where
  "Repeat s count =
     (if count < 0 then Inl NegativeRepeat else Inr (concat (replicate (nat count) s)))"

fun Join :: "string list \<Rightarrow> string \<Rightarrow> string" where
  "Join [] sep = []"
| "Join [x] sep = x"
| "Join (x # y # ys) sep = x @ sep @ Join (y # ys) sep"

text \<open>
  \<^verbatim>\<open>strings.Split(s, sep)\<close> for a separator of one byte: cut at the first occurrence
  of the separator, keep what is before it and go on with what is after it; the rest
  without a separator is the last piece, so the result is never empty.
\<close>

function Split :: "string \<Rightarrow> char \<Rightarrow> string list" where
  "Split s sep =
     (case dropWhile (\<lambda>c. c \<noteq> sep) s of
        [] \<Rightarrow> [s]
      | _ # rest \<Rightarrow> takeWhile (\<lambda>c. c \<noteq> sep) s # Split rest sep)"
  by pat_completeness auto
termination
proof (relation "measure (\<lambda>(s, sep). length s)")
  show "wf (measure (\<lambda>(s, sep). length s))" by simp
next
  fix s :: string and sep x21 x22
  assume "dropWhile (\<lambda>c. c \<noteq> sep) s = x21 # x22"
  then have "length x22 < length (dropWhile (\<lambda>c. c \<noteq> sep) s)" by simp
  also have "\<dots> \<le> length s" by (rule length_dropWhile_le)
  finally show "((x22, sep), (s, sep)) \<in> measure (\<lambda>(s, sep). length s)" by simp
qed

definition HasPrefix :: "string \<Rightarrow> string \<Rightarrow> bool" where
  "HasPrefix s p = (length p \<le> length s \<and> take (length p) s = p)"

definition TrimPrefix :: "string \<Rightarrow> string \<Rightarrow> string" where
  "TrimPrefix s p = (if HasPrefix s p then drop (length p) s else s)"

definition ContainsAny :: "string \<Rightarrow> string \<Rightarrow> bool" where
  "ContainsAny s chars = list_ex (\<lambda>c. List.member chars c) s"

text \<open>
  Go's \<^verbatim>\<open>int\<close> has 64 bits here and subtraction wraps around
  (two's complement); \<open>signed_take_bit 63\<close> is that wrap-around on \<open>int\<close>. It is
  written out where \<^verbatim>\<open>writeHeadline\<close> subtracts two lengths from the tags column, a
  field that may hold any \<^verbatim>\<open>int\<close>. The sum \<^verbatim>\<open>len(li.Bullet)+1\<close> of
  \<^verbatim>\<open>writeListItem\<close> cannot wrap, a string being shorter than \<open>2 ^ 63\<close> bytes.
\<close>

definition int_sub :: "int \<Rightarrow> int \<Rightarrow> int" where
  "int_sub a b = signed_take_bit 63 (a - b)"

definition len :: "string \<Rightarrow> int" where
  "len s = int (length s)"

section \<open>The writer's functions\<close>

definition emphasisOrgBorders :: "(string \<times> string list) list" where
  "emphasisOrgBorders =
     [(''_'', [''_'', ''_'']),
      (''*'', [''*'', ''*'']),
      (''/'', [''/'', ''/'']),
      (''+'', [''+'', ''+'']),
      (''~'', [''~'', ''~'']),
      (''='', [''='', ''='']),
      (''_{}'', [''_{'', ''}'']),
      (''^{}'', [''^{'', ''}''])]"

definition writeComment :: "OrgWriter \<Rightarrow> string \<Rightarrow> OrgWriter" where
  "writeComment w content = WriteString w (indent w @ ''#'' @ content)"

definition writeKeyword :: "OrgWriter \<Rightarrow> string \<Rightarrow> string \<Rightarrow> OrgWriter" where
  "writeKeyword w key val = WriteString w (indent w @ (''#+'' @ key @ '': '' @ val @ NL))"

definition writeTableSeparator :: "OrgWriter \<Rightarrow> string \<Rightarrow> OrgWriter" where
  "writeTableSeparator w content = WriteString w (indent w @ content @ NL)"

definition writeHorizontalRule :: "OrgWriter \<Rightarrow> OrgWriter" where
  "writeHorizontalRule w = WriteString w (indent w @ ''-----'' @ NL)"

definition writeText :: "OrgWriter \<Rightarrow> string \<Rightarrow> OrgWriter" where
  "writeText w content = WriteString w content"

definition writeLineBreak :: "OrgWriter \<Rightarrow> int \<Rightarrow> error + OrgWriter" where
  "writeLineBreak w count =
     (case Repeat (NL @ indent w) count of
        Inl e \<Rightarrow> Inl e
      | Inr s \<Rightarrow> Inr (WriteString w s))"

definition writeExplicitLineBreak :: "OrgWriter \<Rightarrow> OrgWriter" where
  "writeExplicitLineBreak w = WriteString w ([CHR 0x5C, CHR 0x5C] @ NL @ indent w)"

text \<open>
  The inner loop of \<^verbatim>\<open>writeNodeWithMeta\<close> steps through a flat list of attributes two
  at a time, \<^verbatim>\<open>for i := 0; i < len(attributes)-1; i += 2\<close>; a last attribute without
  a value is left out.
\<close>

fun writeAttributePairs :: "OrgWriter \<Rightarrow> string list \<Rightarrow> OrgWriter" where
  "writeAttributePairs w (k # v # rest) =
     (let w = WriteString w (k @ '' '');
          w = (if ContainsAny v [CHR 0x09, CHR '' '']
               then WriteString w ([CHR 0x22] @ v @ [CHR 0x22])
               else WriteString w v)
      in writeAttributePairs w rest)"
| "writeAttributePairs w _ = w"

fun writeHTMLAttributes :: "OrgWriter \<Rightarrow> string list list \<Rightarrow> OrgWriter" where
  "writeHTMLAttributes w [] = w"
| "writeHTMLAttributes w (attributes # rest) =
     (let w = WriteString w ''#+ATTR_HTML: '';
          w = writeAttributePairs w attributes;
          w = WriteString w NL
      in writeHTMLAttributes w rest)"

text \<open>
  The loop of \<^verbatim>\<open>writeBlock\<close> over the lines of a raw block.
\<close>

fun writeRawLines :: "OrgWriter \<Rightarrow> string list \<Rightarrow> OrgWriter" where
  "writeRawLines w [] = w"
| "writeRawLines w (line # rest) = writeRawLines (WriteString w (indent w @ line @ NL)) rest"

text \<open>
  The type switch and the functions it calls are mutually recursive. \<open>writeNodes\<close> is
  the loop over the sequence and \<open>writeNode\<close> the body of the loop, the type switch.
  A struct is passed as its fields. \<open>writeCaptions\<close> is the first loop of
  \<^verbatim>\<open>writeNodeWithMeta\<close> and \<open>writeColumnsLoop\<close> the loop of
  \<^verbatim>\<open>writeTableColumns\<close>, where \<^verbatim>\<open>i < len(columns)-1\<close> says that columns
  remain. A panic, \<open>Inl\<close>, ends the whole render.
\<close>

function (sequential)
    writeNodes :: "helpers \<Rightarrow> OrgWriter \<Rightarrow> Node list \<Rightarrow> error + OrgWriter"
and writeNode :: "helpers \<Rightarrow> OrgWriter \<Rightarrow> Node \<Rightarrow> error + OrgWriter"
and writeHeadline :: "helpers \<Rightarrow> OrgWriter \<Rightarrow> int \<Rightarrow> string \<Rightarrow> string \<Rightarrow> Node list \<Rightarrow> string list \<Rightarrow> Node list \<Rightarrow> error + OrgWriter"
and writeBlock :: "helpers \<Rightarrow> OrgWriter \<Rightarrow> string \<Rightarrow> string list \<Rightarrow> Node list \<Rightarrow> error + OrgWriter"
and writeFootnoteDefinition :: "helpers \<Rightarrow> OrgWriter \<Rightarrow> string \<Rightarrow> Node list \<Rightarrow> error + OrgWriter"
and writeParagraph :: "helpers \<Rightarrow> OrgWriter \<Rightarrow> Node list \<Rightarrow> error + OrgWriter"
and writeCaptions :: "helpers \<Rightarrow> OrgWriter \<Rightarrow> Node list list \<Rightarrow> error + OrgWriter"
and writeNodeWithMeta :: "helpers \<Rightarrow> OrgWriter \<Rightarrow> Node \<Rightarrow> Node list list \<Rightarrow> string list list \<Rightarrow> error + OrgWriter"
and writeList :: "helpers \<Rightarrow> OrgWriter \<Rightarrow> Node list \<Rightarrow> error + OrgWriter"
and writeListItem :: "helpers \<Rightarrow> OrgWriter \<Rightarrow> string \<Rightarrow> Node list \<Rightarrow> error + OrgWriter"
and writeTable :: "helpers \<Rightarrow> OrgWriter \<Rightarrow> Node \<Rightarrow> Node list \<Rightarrow> error + OrgWriter"
and writeTableHeader :: "helpers \<Rightarrow> OrgWriter \<Rightarrow> Node list list \<Rightarrow> Node \<Rightarrow> error + OrgWriter"
and writeTableRow :: "helpers \<Rightarrow> OrgWriter \<Rightarrow> Node list list \<Rightarrow> error + OrgWriter"
and writeColumnsLoop :: "helpers \<Rightarrow> OrgWriter \<Rightarrow> Node list list \<Rightarrow> error + OrgWriter"
and writeTableColumns :: "helpers \<Rightarrow> OrgWriter \<Rightarrow> Node list list \<Rightarrow> error + OrgWriter"
and writeEmphasis :: "helpers \<Rightarrow> OrgWriter \<Rightarrow> string \<Rightarrow> Node list \<Rightarrow> error + OrgWriter"
and writeFootnoteLink :: "helpers \<Rightarrow> OrgWriter \<Rightarrow> string \<Rightarrow> Node FootnoteDefinition option \<Rightarrow> error + OrgWriter"
and writeRegularLink :: "helpers \<Rightarrow> OrgWriter \<Rightarrow> string \<Rightarrow> Node list option \<Rightarrow> bool \<Rightarrow> error + OrgWriter"
where
  "writeNodes H w [] = Inr w"
| "writeNodes H w (n # ns) =
     (case writeNode H w n of
        Inl e \<Rightarrow> Inl e
      | Inr w \<Rightarrow> writeNodes H w ns)"
| "writeNode H w n =
     (case n of
        Comment content \<Rightarrow> Inr (writeComment w content)
      | Keyword key val \<Rightarrow> Inr (writeKeyword w key val)
      | NodeWithMeta node caption attrs \<Rightarrow> writeNodeWithMeta H w node caption attrs
      | Headline lvl status priority title tags children \<Rightarrow>
          writeHeadline H w lvl status priority title tags children
      | Block name parameters children \<Rightarrow> writeBlock H w name parameters children
      | FootnoteDefinitionNode f \<Rightarrow>
          (case f of FootnoteDefinition name children inline \<Rightarrow>
             writeFootnoteDefinition H w name children)
      | List items \<Rightarrow> writeList H w items
      | ListItem bullet children \<Rightarrow> writeListItem H w bullet children
      | Table header rows \<Rightarrow> writeTable H w header rows
      | TableHeader columns separator \<Rightarrow> writeTableHeader H w columns separator
      | TableRow columns \<Rightarrow> writeTableRow H w columns
      | TableSeparator content \<Rightarrow> Inr (writeTableSeparator w content)
      | Paragraph children \<Rightarrow> writeParagraph H w children
      | HorizontalRule \<Rightarrow> Inr (writeHorizontalRule w)
      | Text content \<Rightarrow> Inr (writeText w content)
      | Emphasis kind content \<Rightarrow> writeEmphasis H w kind content
      | LineBreak count \<Rightarrow> writeLineBreak w count
      | ExplicitLineBreak \<Rightarrow> Inr (writeExplicitLineBreak w)
      | RegularLink url description autoLink \<Rightarrow> writeRegularLink H w url description autoLink
      | FootnoteLink name definition \<Rightarrow> writeFootnoteLink H w name definition
      | NilNode \<Rightarrow> Inr w
      | Other v \<Rightarrow> Inl (BadNode n))"
| "writeHeadline H w lvl status priority title tags children =
     (let tmp = emptyClone w in
      case Repeat ''*'' lvl of
        Inl e \<Rightarrow> Inl e
      | Inr stars \<Rightarrow>
     (let tmp = WriteString tmp stars;
          tmp = (if status \<noteq> [] then WriteString tmp ('' '' @ status) else tmp);
          tmp = (if priority \<noteq> [] then WriteString tmp ('' [#'' @ priority @ '']'') else tmp);
          tmp = WriteString tmp '' '' in
      case writeNodes H tmp title of
        Inl e \<Rightarrow> Inl e
      | Inr tmp \<Rightarrow>
     (let hString = String tmp in
      case (if length tags \<noteq> 0 then
              (let hString = hString @ '' '';
                   tString = '':'' @ Join tags '':'' @ '':'';
                   n = int_sub (int_sub (TagsColumn w) (len tString)) (len hString) in
               if n > 0 then
                 (case Repeat '' '' n of
                    Inl e \<Rightarrow> Inl e
                  | Inr spaces \<Rightarrow> Inr (WriteString w (hString @ spaces @ tString)))
               else Inr (WriteString w (hString @ tString)))
            else Inr (WriteString w hString)) of
        Inl e \<Rightarrow> Inl e
      | Inr w \<Rightarrow>
     (let w = WriteString w NL;
          w = (if length children \<noteq> 0 then WriteString w (indent w) else w) in
      writeNodes H w children))))"
| "writeBlock H w name parameters children =
     (let w = WriteString w (indent w @ ''#+BEGIN_'' @ name);
          w = (if length parameters \<noteq> 0
               then WriteString w ('' '' @ Join parameters '' '') else w);
          w = WriteString w NL in
      case (if isRawTextBlock H name then
              (case children of
                 [] \<Rightarrow> Inl IndexOutOfRange
               | c # _ \<Rightarrow>
                  (case c of
                     Text content \<Rightarrow> Inr (writeRawLines w (Split content (CHR 0x0A)))
                   | _ \<Rightarrow> Inl (BadTypeAssertion c)))
            else writeNodes H w children) of
        Inl e \<Rightarrow> Inl e
      | Inr w \<Rightarrow> Inr (WriteString w (indent w @ ''#+END_'' @ name @ NL)))"
| "writeFootnoteDefinition H w name children =
     (let w = WriteString w (''[fn:'' @ name @ '']'');
          w = (if \<not> (length children \<ge> 1 \<and> isEmptyLineParagraph H (hd children))
               then WriteString w '' '' else w) in
      writeNodes H w children)"
| "writeParagraph H w children =
     (case writeNodes H w children of
        Inl e \<Rightarrow> Inl e
      | Inr w \<Rightarrow> Inr (WriteString w NL))"
| "writeCaptions H w [] = Inr w"
| "writeCaptions H w (ns # rest) =
     (let w = WriteString w ''#+CAPTION: '' in
      case writeNodes H w ns of
        Inl e \<Rightarrow> Inl e
      | Inr w \<Rightarrow> writeCaptions H (WriteString w NL) rest)"
| "writeNodeWithMeta H w node caption attrs =
     (case writeCaptions H w caption of
        Inl e \<Rightarrow> Inl e
      | Inr w \<Rightarrow> writeNodes H (writeHTMLAttributes w attrs) [node])"
| "writeList H w items = writeNodes H w items"
| "writeListItem H w bullet children =
     (let w = WriteString w (indent w @ bullet @ '' '');
          liWriter = emptyClone w in
      case Repeat '' '' (len bullet + 1) of
        Inl e \<Rightarrow> Inl e
      | Inr spaces \<Rightarrow>
     (let liWriter = liWriter\<lparr>indent := indent w @ spaces\<rparr> in
      case writeNodes H liWriter children of
        Inl e \<Rightarrow> Inl e
      | Inr liWriter \<Rightarrow> Inr (WriteString w (TrimPrefix (String liWriter) (indent liWriter)))))"
| "writeTable H w header rows =
     (case writeNodes H w [header] of
        Inl e \<Rightarrow> Inl e
      | Inr w \<Rightarrow> writeNodes H w rows)"
| "writeTableHeader H w columns separator =
     (case writeTableColumns H w columns of
        Inl e \<Rightarrow> Inl e
      | Inr w \<Rightarrow> writeNodes H w [separator])"
| "writeTableRow H w columns = writeTableColumns H w columns"
| "writeColumnsLoop H w [] = Inr w"
| "writeColumnsLoop H w (columnNodes # rest) =
     (case writeNodes H w columnNodes of
        Inl e \<Rightarrow> Inl e
      | Inr w \<Rightarrow>
     (let w = WriteString w '' |'';
          w = (if rest \<noteq> [] then WriteString w '' '' else w) in
      writeColumnsLoop H w rest))"
| "writeTableColumns H w columns =
     (let w = WriteString w (indent w @ ''| '') in
      case writeColumnsLoop H w columns of
        Inl e \<Rightarrow> Inl e
      | Inr w \<Rightarrow> Inr (WriteString w NL))"
| "writeEmphasis H w kind content =
     (case map_of emphasisOrgBorders kind of
        None \<Rightarrow> Inl (BadEmphasis (Emphasis kind content))
      | Some borders \<Rightarrow>
     (let w = WriteString w (borders ! 0) in
      case writeNodes H w content of
        Inl e \<Rightarrow> Inl e
      | Inr w \<Rightarrow> Inr (WriteString w (borders ! 1))))"
| "writeFootnoteLink H w name definition =
     (let w = WriteString w (''[fn:'' @ name) in
      case (case definition of
              None \<Rightarrow> Inr w
            | Some d \<Rightarrow>
             (let w = WriteString w '':'' in
              case d of FootnoteDefinition dname dchildren dinline \<Rightarrow>
             (case dchildren of
                [] \<Rightarrow> Inl IndexOutOfRange
              | c # _ \<Rightarrow>
                 (case c of
                    Paragraph pchildren \<Rightarrow> writeNodes H w pchildren
                  | _ \<Rightarrow> Inl (BadTypeAssertion c))))) of
        Inl e \<Rightarrow> Inl e
      | Inr w \<Rightarrow> Inr (WriteString w '']''))"
| "writeRegularLink H w url description autoLink =
     (if autoLink then Inr (WriteString w url)
      else (case description of
              None \<Rightarrow> Inr (WriteString w (''[['' @ url @ '']]''))
            | Some ds \<Rightarrow>
             (let descriptionWriter = emptyClone w in
              case writeNodes H descriptionWriter ds of
                Inl e \<Rightarrow> Inl e
              | Inr descriptionWriter \<Rightarrow>
                  Inr (WriteString w (''[['' @ url @ ''][''
                         @ String descriptionWriter @ '']]'')))))"
  by pat_completeness auto
termination
  by (relation "measure
    (case_sum
      (case_sum
        (case_sum
          (case_sum (\<lambda>(H, w, ns). 4 * size_list size ns)
                    (\<lambda>(H, w, n). 4 * size n + 3))
          (case_sum (\<lambda>(H, w, lvl, status, priority, title, tags, children).
                       4 * (size_list size title + size_list size children) + 6)
                    (\<lambda>(H, w, name, parameters, children). 4 * size_list size children + 6)))
        (case_sum
          (case_sum (\<lambda>(H, w, name, children). 4 * size_list size children + 6)
                    (\<lambda>(H, w, children). 4 * size_list size children + 6))
          (case_sum (\<lambda>(H, w, caption). 4 * size_list (size_list size) caption + 1)
            (case_sum (\<lambda>(H, w, node, caption, attrs).
                         4 * (size node + size_list (size_list size) caption) + 6)
                      (\<lambda>(H, w, items). 4 * size_list size items + 6)))))
      (case_sum
        (case_sum
          (case_sum (\<lambda>(H, w, bullet, children). 4 * size_list size children + 6)
                    (\<lambda>(H, w, header, rows). 4 * (size header + size_list size rows) + 6))
          (case_sum (\<lambda>(H, w, columns, separator).
                       4 * (size_list (size_list size) columns + size separator) + 6)
                    (\<lambda>(H, w, columns). 4 * size_list (size_list size) columns + 6)))
        (case_sum
          (case_sum (\<lambda>(H, w, columns). 4 * size_list (size_list size) columns + 1)
                    (\<lambda>(H, w, columns). 4 * size_list (size_list size) columns + 2))
          (case_sum (\<lambda>(H, w, kind, content). 4 * size_list size content + 6)
            (case_sum (\<lambda>(H, w, name, definition).
                         4 * size_option (size_FootnoteDefinition size) definition + 6)
                      (\<lambda>(H, w, url, description, autoLink).
                         4 * size_option (size_list size) description + 6))))))")
     auto

text \<open>
  \<^verbatim>\<open>writeFootnotes\<close>: the loop over \<^verbatim>\<open>fs.Ordered()\<close>, then the function. The
  document and its footnote table are pointers in Go; they are taken to be non-nil.
\<close>

fun writeFootnotesLoop ::
  "helpers \<Rightarrow> OrgWriter \<Rightarrow> Node FootnoteDefinition list \<Rightarrow> error + OrgWriter" where
  "writeFootnotesLoop H w [] = Inr w"
| "writeFootnotesLoop H w (definition # rest) =
     (case (if \<not> Inline definition
            then writeNodes H w [FootnoteDefinitionNode definition]
            else Inr w) of
        Inl e \<Rightarrow> Inl e
      | Inr w \<Rightarrow> writeFootnotesLoop H w rest)"

definition writeFootnotes :: "helpers \<Rightarrow> OrgWriter \<Rightarrow> Document \<Rightarrow> error + OrgWriter" where
  "writeFootnotes H w d =
     (let fs = Footnotes d in
      if length (Definitions fs) = 0 then Inr w
      else (let w = WriteString w (''* '' @ Title fs @ NL) in
            writeFootnotesLoop H w (Ordered H fs)))"

definition before :: "OrgWriter \<Rightarrow> Document \<Rightarrow> error + OrgWriter" where
  "before w d = Inr w"

definition after :: "helpers \<Rightarrow> OrgWriter \<Rightarrow> Document \<Rightarrow> error + OrgWriter" where
  "after H w d = writeFootnotes H w d"

section \<open>What a node sequence renders to\<close>

text \<open>
  The text that dispatching \<open>ns\<close> produces under the configuration of \<open>w\<close> (its
  indentation prefix and tags column): the content of an empty clone of \<open>w\<close> after
  \<open>writeNodes\<close>, or the panic.
\<close>

definition rendering :: "helpers \<Rightarrow> OrgWriter \<Rightarrow> Node list \<Rightarrow> error + string" where
  "rendering H w ns =
     (case writeNodes H (emptyClone w) ns of
        Inl e \<Rightarrow> Inl e
      | Inr w' \<Rightarrow> Inr (String w'))"

text \<open>
  The same for each column of a table row, in order; the first panic wins.
\<close>

fun renderings :: "helpers \<Rightarrow> OrgWriter \<Rightarrow> Node list list \<Rightarrow> error + string list" where
  "renderings H w [] = Inr []"
| "renderings H w (c # cs) =
     (case rendering H w c of
        Inl e \<Rightarrow> Inl e
      | Inr s \<Rightarrow>
          (case renderings H w cs of
             Inl e \<Rightarrow> Inl e
           | Inr ss \<Rightarrow> Inr (s # ss)))"

text \<open>
  A function of the writer appends at \<open>w\<close> when, whatever the buffer holds, it either
  panics with one and the same error or adds one and the same text to the buffer and
  changes nothing else.
\<close>

definition appends :: "(OrgWriter \<Rightarrow> error + OrgWriter) \<Rightarrow> OrgWriter \<Rightarrow> bool" where
  "appends f w =
     (\<exists>r. \<forall>b. f (w\<lparr>stringBuilder := b\<rparr>) =
          (case r of
             Inl e \<Rightarrow> Inl e
           | Inr s \<Rightarrow> Inr (w\<lparr>stringBuilder := b @ s\<rparr>)))"

text \<open>
  Names for the pieces of text that \<^verbatim>\<open>writeHeadline\<close> and the attribute loops of
  \<^verbatim>\<open>writeNodeWithMeta\<close> build: the part of the headline before its title, the
  headline with its tags, and the attribute lines.
\<close>

definition headlinePrefix :: "int \<Rightarrow> string \<Rightarrow> string \<Rightarrow> string" where
  "headlinePrefix lvl status priority =
     replicate (nat lvl) (CHR ''*'')
     @ (if status \<noteq> [] then '' '' @ status else [])
     @ (if priority \<noteq> [] then '' [#'' @ priority @ '']'' else [])
     @ '' ''"

definition headlineLine :: "int \<Rightarrow> string \<Rightarrow> string list \<Rightarrow> string" where
  "headlineLine col hString tags =
     (if tags \<noteq> [] then
        (let tString = '':'' @ Join tags '':'' @ '':'';
             n = int_sub (int_sub col (len tString)) (len (hString @ '' ''))
         in if n > 0 then hString @ '' '' @ replicate (nat n) (CHR '' '') @ tString
            else hString @ '' '' @ tString)
      else hString)"

fun attributePairsText :: "string list \<Rightarrow> string" where
  "attributePairsText (k # v # rest) =
     k @ '' '' @ (if ContainsAny v [CHR 0x09, CHR '' ''] then [CHR 0x22] @ v @ [CHR 0x22] else v)
     @ attributePairsText rest"
| "attributePairsText _ = []"

fun htmlAttributesText :: "string list list \<Rightarrow> string" where
  "htmlAttributesText [] = []"
| "htmlAttributesText (attributes # rest) =
     ''#+ATTR_HTML: '' @ attributePairsText attributes @ NL @ htmlAttributesText rest"

text \<open>
  An instance of the three functions taken as parameters, and a writer as
  \<^verbatim>\<open>NewOrgWriter\<close> returns it, for the examples.
\<close>

definition exampleHelpers :: helpers where
  "exampleHelpers =
     \<lparr>isRawTextBlock = (\<lambda>name. name = ''SRC'' \<or> name = ''EXAMPLE''),
      isEmptyLineParagraph = (\<lambda>n. n = Paragraph []),
      Ordered = (\<lambda>fs. map snd (Definitions fs))\<rparr>"

definition NewOrgWriter :: OrgWriter where
  "NewOrgWriter = \<lparr>TagsColumn = 77, stringBuilder = [], indent = []\<rparr>"

section \<open>Simplification set-up\<close>

declare writeNode.simps [simp del] writeHeadline.simps [simp del] writeBlock.simps [simp del]
  writeFootnoteDefinition.simps [simp del] writeParagraph.simps [simp del]
  writeNodeWithMeta.simps [simp del] writeList.simps [simp del] writeListItem.simps [simp del]
  writeTable.simps [simp del] writeTableHeader.simps [simp del] writeTableRow.simps [simp del]
  writeTableColumns.simps [simp del] writeEmphasis.simps [simp del]
  writeFootnoteLink.simps [simp del] writeRegularLink.simps [simp del] Split.simps [simp del]

lemma writeNode_simps [simp]:
  "writeNode H w (Comment content) = Inr (writeComment w content)"
  "writeNode H w (Keyword key val) = Inr (writeKeyword w key val)"
  "writeNode H w (NodeWithMeta node caption attrs) = writeNodeWithMeta H w node caption attrs"
  "writeNode H w (Headline lvl status priority title tags children) =
     writeHeadline H w lvl status priority title tags children"
  "writeNode H w (Block name parameters children) = writeBlock H w name parameters children"
  "writeNode H w (FootnoteDefinitionNode (FootnoteDefinition name children inline)) =
     writeFootnoteDefinition H w name children"
  "writeNode H w (List items) = writeList H w items"
  "writeNode H w (ListItem bullet children) = writeListItem H w bullet children"
  "writeNode H w (Table header rows) = writeTable H w header rows"
  "writeNode H w (TableHeader columns separator) = writeTableHeader H w columns separator"
  "writeNode H w (TableRow columns) = writeTableRow H w columns"
  "writeNode H w (TableSeparator content) = Inr (writeTableSeparator w content)"
  "writeNode H w (Paragraph children) = writeParagraph H w children"
  "writeNode H w HorizontalRule = Inr (writeHorizontalRule w)"
  "writeNode H w (Text content) = Inr (writeText w content)"
  "writeNode H w (Emphasis kind nodes) = writeEmphasis H w kind nodes"
  "writeNode H w (LineBreak count) = writeLineBreak w count"
  "writeNode H w ExplicitLineBreak = Inr (writeExplicitLineBreak w)"
  "writeNode H w (RegularLink url description autoLink) =
     writeRegularLink H w url description autoLink"
  "writeNode H w (FootnoteLink name defn) = writeFootnoteLink H w name defn"
  "writeNode H w NilNode = Inr w"
  "writeNode H w (Other v) = Inl (BadNode (Other v))"
  by (simp_all add: writeNode.simps)

section \<open>The writer only appends\<close>

lemma appends_buffer [simp]: "appends f (w\<lparr>stringBuilder := x\<rparr>) = appends f w"
  by (simp add: appends_def cong: sum.case_cong)

lemma appendsD:
  assumes "appends f w"
  obtains r where
    "\<And>b. f (w\<lparr>stringBuilder := b\<rparr>) =
       (case r of Inl e \<Rightarrow> Inl e | Inr s \<Rightarrow> Inr (w\<lparr>stringBuilder := b @ s\<rparr>))"
  using assms unfolding appends_def by blast

lemma appendsI:
  assumes "\<And>b. f (w\<lparr>stringBuilder := b\<rparr>) =
       (case f (w\<lparr>stringBuilder := []\<rparr>) of
          Inl e \<Rightarrow> Inl e
        | Inr w' \<Rightarrow> Inr (w\<lparr>stringBuilder := b @ stringBuilder w'\<rparr>))"
  shows "appends f w"
  unfolding appends_def
proof (intro exI allI)
  fix b
  show "f (w\<lparr>stringBuilder := b\<rparr>) =
    (case (case f (w\<lparr>stringBuilder := []\<rparr>) of Inl e \<Rightarrow> Inl e | Inr w' \<Rightarrow> Inr (stringBuilder w')) of
       Inl e \<Rightarrow> Inl e | Inr s \<Rightarrow> Inr (w\<lparr>stringBuilder := b @ s\<rparr>))"
    by (subst assms) (simp split: sum.splits)
qed

lemma appends_writeNodes:
  assumes "\<And>n w. n \<in> set ns \<Longrightarrow> appends (\<lambda>w. writeNode H w n) w"
  shows "appends (\<lambda>w. writeNodes H w ns) w"
  using assms
proof (induction ns)
  case Nil
  show ?case by (rule appendsI) simp
next
  case (Cons n ns)
  from Cons.prems [of n w] obtain r1 where r1:
    "\<And>b. writeNode H (w\<lparr>stringBuilder := b\<rparr>) n =
       (case r1 of Inl e \<Rightarrow> Inl e | Inr s \<Rightarrow> Inr (w\<lparr>stringBuilder := b @ s\<rparr>))"
    unfolding appends_def by auto
  from Cons have "appends (\<lambda>w. writeNodes H w ns) w" by simp
  then obtain r2 where r2:
    "\<And>b. writeNodes H (w\<lparr>stringBuilder := b\<rparr>) ns =
       (case r2 of Inl e \<Rightarrow> Inl e | Inr s \<Rightarrow> Inr (w\<lparr>stringBuilder := b @ s\<rparr>))"
    unfolding appends_def by auto
  show ?case
    by (rule appendsI) (simp add: r1 r2 split: sum.splits)
qed

lemma concat_replicate_single: "concat (replicate k [c]) = replicate k c"
  by (induction k) simp_all

lemma writeHeadline_negative:
  assumes "lvl < 0"
  shows "writeHeadline H w lvl status priority title tags children = Inl NegativeRepeat"
  using assms by (simp add: writeHeadline.simps Repeat_def Let_def)

lemma writeHeadline_unfold:
  assumes "0 \<le> lvl"
  shows "writeHeadline H w lvl status priority title tags children =
     (case writeNodes H (w\<lparr>stringBuilder := headlinePrefix lvl status priority\<rparr>) title of
        Inl e \<Rightarrow> Inl e
      | Inr tmp \<Rightarrow>
          writeNodes H
            (w\<lparr>stringBuilder := stringBuilder w
                @ headlineLine (TagsColumn w) (stringBuilder tmp) tags
                @ NL @ (if children \<noteq> [] then indent w else [])\<rparr>)
            children)"
proof -
  have rep: "Repeat ''*'' lvl = Inr (replicate (nat lvl) (CHR ''*''))"
    using assms by (simp add: Repeat_def concat_replicate_single)
  have tmp: "(let tmp = WriteString (emptyClone w) (replicate (nat lvl) (CHR ''*''));
          tmp = (if status \<noteq> [] then WriteString tmp ('' '' @ status) else tmp);
          tmp = (if priority \<noteq> [] then WriteString tmp ('' [#'' @ priority @ '']'') else tmp);
          tmp = WriteString tmp '' '' in f tmp) =
        f (w\<lparr>stringBuilder := headlinePrefix lvl status priority\<rparr>)"
    for f :: "OrgWriter \<Rightarrow> error + OrgWriter"
    by (simp add: Let_def WriteString_def emptyClone_def headlinePrefix_def)
  show ?thesis
    apply (subst writeHeadline.simps)
    apply (simp only: Let_def [of "emptyClone w"] rep sum.case)
    apply (subst tmp)
    apply (rule sum.case_cong [OF refl refl])
    apply (simp add: Let_def Repeat_def concat_replicate_single WriteString_def String_def
             headlineLine_def)
    done
qed

lemma appends_writeHeadline:
  assumes "\<And>w. appends (\<lambda>w. writeNodes H w children) w"
  shows "appends (\<lambda>w. writeHeadline H w lvl status priority title tags children) w"
proof (cases "0 \<le> lvl")
  case False
  then show ?thesis by (intro appendsI) (simp add: writeHeadline_negative)
next
  case True
  from assms [of w] obtain r where r:
    "\<And>b. writeNodes H (w\<lparr>stringBuilder := b\<rparr>) children =
       (case r of Inl e \<Rightarrow> Inl e | Inr s \<Rightarrow> Inr (w\<lparr>stringBuilder := b @ s\<rparr>))"
    unfolding appends_def by auto
  show ?thesis
  proof (rule appendsI)
    fix b
    show "writeHeadline H (w\<lparr>stringBuilder := b\<rparr>) lvl status priority title tags children =
      (case writeHeadline H (w\<lparr>stringBuilder := []\<rparr>) lvl status priority title tags children of
         Inl e \<Rightarrow> Inl e
       | Inr w' \<Rightarrow> Inr (w\<lparr>stringBuilder := b @ stringBuilder w'\<rparr>))"
      by (cases "writeNodes H (w\<lparr>stringBuilder := headlinePrefix lvl status priority\<rparr>) title";
          cases r)
         (simp_all add: writeHeadline_unfold [OF True] r)
  qed
qed

lemma writeRawLines_eq:
  "writeRawLines w ls =
     w\<lparr>stringBuilder := stringBuilder w @ concat (map (\<lambda>l. indent w @ l @ NL) ls)\<rparr>"
  by (induction ls arbitrary: w) (simp_all add: WriteString_def)

lemma writeAttributePairs_eq:
  "writeAttributePairs w attributes =
     w\<lparr>stringBuilder := stringBuilder w @ attributePairsText attributes\<rparr>"
  by (induction w attributes rule: writeAttributePairs.induct)
     (simp_all add: WriteString_def Let_def)

lemma writeHTMLAttributes_eq:
  "writeHTMLAttributes w attrs = w\<lparr>stringBuilder := stringBuilder w @ htmlAttributesText attrs\<rparr>"
  by (induction attrs arbitrary: w)
     (simp_all add: WriteString_def Let_def writeAttributePairs_eq)

lemma appends_writeBlock:
  assumes "\<And>w. appends (\<lambda>w. writeNodes H w children) w"
  shows "appends (\<lambda>w. writeBlock H w name parameters children) w"
proof (cases "isRawTextBlock H name")
  case True
  show ?thesis
  proof (cases children)
    case Nil
    with True show ?thesis
      by (intro appendsI) (simp add: writeBlock.simps Let_def)
  next
    case (Cons c cs)
    with True show ?thesis
      by (intro appendsI, cases c)
         (simp_all add: writeBlock.simps Let_def WriteString_def writeRawLines_eq)
  qed
next
  case False
  from assms [of w] obtain r where r:
    "\<And>b. writeNodes H (w\<lparr>stringBuilder := b\<rparr>) children =
       (case r of Inl e \<Rightarrow> Inl e | Inr s \<Rightarrow> Inr (w\<lparr>stringBuilder := b @ s\<rparr>))"
    unfolding appends_def by auto
  from False show ?thesis
    by (intro appendsI, cases r)
       (simp_all add: writeBlock.simps Let_def WriteString_def r)
qed

lemma appends_writeFootnoteDefinition:
  assumes "\<And>w. appends (\<lambda>w. writeNodes H w children) w"
  shows "appends (\<lambda>w. writeFootnoteDefinition H w name children) w"
proof -
  from assms [of w] obtain r where r:
    "\<And>b. writeNodes H (w\<lparr>stringBuilder := b\<rparr>) children =
       (case r of Inl e \<Rightarrow> Inl e | Inr s \<Rightarrow> Inr (w\<lparr>stringBuilder := b @ s\<rparr>))"
    unfolding appends_def by auto
  show ?thesis
    by (intro appendsI, cases r)
       (simp_all add: writeFootnoteDefinition.simps Let_def WriteString_def r)
qed

lemma appends_writeParagraph:
  assumes "\<And>w. appends (\<lambda>w. writeNodes H w children) w"
  shows "appends (\<lambda>w. writeParagraph H w children) w"
proof -
  from assms [of w] obtain r where r:
    "\<And>b. writeNodes H (w\<lparr>stringBuilder := b\<rparr>) children =
       (case r of Inl e \<Rightarrow> Inl e | Inr s \<Rightarrow> Inr (w\<lparr>stringBuilder := b @ s\<rparr>))"
    unfolding appends_def by auto
  show ?thesis
    by (intro appendsI, cases r)
       (simp_all add: writeParagraph.simps WriteString_def r)
qed

lemma appends_writeCaptions:
  assumes "\<And>ns w. ns \<in> set caption \<Longrightarrow> appends (\<lambda>w. writeNodes H w ns) w"
  shows "appends (\<lambda>w. writeCaptions H w caption) w"
  using assms
proof (induction caption)
  case Nil
  show ?case by (rule appendsI) simp
next
  case (Cons ns rest)
  from Cons.prems [of ns w] obtain r1 where r1:
    "\<And>b. writeNodes H (w\<lparr>stringBuilder := b\<rparr>) ns =
       (case r1 of Inl e \<Rightarrow> Inl e | Inr s \<Rightarrow> Inr (w\<lparr>stringBuilder := b @ s\<rparr>))"
    unfolding appends_def by auto
  from Cons have "appends (\<lambda>w. writeCaptions H w rest) w" by simp
  then obtain r2 where r2:
    "\<And>b. writeCaptions H (w\<lparr>stringBuilder := b\<rparr>) rest =
       (case r2 of Inl e \<Rightarrow> Inl e | Inr s \<Rightarrow> Inr (w\<lparr>stringBuilder := b @ s\<rparr>))"
    unfolding appends_def by auto
  show ?case
    by (intro appendsI, cases r1; cases r2)
       (simp_all add: Let_def WriteString_def r1 r2)
qed

lemma appends_writeNodeWithMeta:
  assumes "\<And>ns w. ns \<in> set caption \<Longrightarrow> appends (\<lambda>w. writeNodes H w ns) w"
    and "\<And>w. appends (\<lambda>w. writeNodes H w [node]) w"
  shows "appends (\<lambda>w. writeNodeWithMeta H w node caption attrs) w"
proof -
  from appends_writeCaptions [of caption H w] assms(1) obtain r1 where r1:
    "\<And>b. writeCaptions H (w\<lparr>stringBuilder := b\<rparr>) caption =
       (case r1 of Inl e \<Rightarrow> Inl e | Inr s \<Rightarrow> Inr (w\<lparr>stringBuilder := b @ s\<rparr>))"
    unfolding appends_def by auto
  from assms(2) [of w] obtain r2 where r2:
    "\<And>b. writeNodes H (w\<lparr>stringBuilder := b\<rparr>) [node] =
       (case r2 of Inl e \<Rightarrow> Inl e | Inr s \<Rightarrow> Inr (w\<lparr>stringBuilder := b @ s\<rparr>))"
    unfolding appends_def by auto
  show ?thesis
    by (intro appendsI, cases r1; cases r2)
       (simp_all add: writeNodeWithMeta.simps writeHTMLAttributes_eq r1 r2 del: writeNodes.simps)
qed

lemma appends_writeListItem:
  "appends (\<lambda>w. writeListItem H w bullet children) w"
  by (rule appendsI)
     (simp add: writeListItem.simps Let_def WriteString_def emptyClone_def Repeat_def len_def
        String_def split: sum.split)

lemma appends_writeTable:
  assumes "\<And>w. appends (\<lambda>w. writeNodes H w [header]) w"
    and "\<And>w. appends (\<lambda>w. writeNodes H w rows) w"
  shows "appends (\<lambda>w. writeTable H w header rows) w"
proof -
  from assms(1) [of w] obtain r1 where r1:
    "\<And>b. writeNodes H (w\<lparr>stringBuilder := b\<rparr>) [header] =
       (case r1 of Inl e \<Rightarrow> Inl e | Inr s \<Rightarrow> Inr (w\<lparr>stringBuilder := b @ s\<rparr>))"
    unfolding appends_def by auto
  from assms(2) [of w] obtain r2 where r2:
    "\<And>b. writeNodes H (w\<lparr>stringBuilder := b\<rparr>) rows =
       (case r2 of Inl e \<Rightarrow> Inl e | Inr s \<Rightarrow> Inr (w\<lparr>stringBuilder := b @ s\<rparr>))"
    unfolding appends_def by auto
  show ?thesis
    by (intro appendsI, cases r1; cases r2)
       (simp_all add: writeTable.simps r1 r2 del: writeNodes.simps)
qed

lemma appends_writeColumnsLoop:
  assumes "\<And>ns w. ns \<in> set columns \<Longrightarrow> appends (\<lambda>w. writeNodes H w ns) w"
  shows "appends (\<lambda>w. writeColumnsLoop H w columns) w"
  using assms
proof (induction columns)
  case Nil
  show ?case by (rule appendsI) simp
next
  case (Cons ns rest)
  from Cons.prems [of ns w] obtain r1 where r1:
    "\<And>b. writeNodes H (w\<lparr>stringBuilder := b\<rparr>) ns =
       (case r1 of Inl e \<Rightarrow> Inl e | Inr s \<Rightarrow> Inr (w\<lparr>stringBuilder := b @ s\<rparr>))"
    unfolding appends_def by auto
  from Cons have "appends (\<lambda>w. writeColumnsLoop H w rest) w" by simp
  then obtain r2 where r2:
    "\<And>b. writeColumnsLoop H (w\<lparr>stringBuilder := b\<rparr>) rest =
       (case r2 of Inl e \<Rightarrow> Inl e | Inr s \<Rightarrow> Inr (w\<lparr>stringBuilder := b @ s\<rparr>))"
    unfolding appends_def by auto
  show ?case
    by (intro appendsI, cases r1; cases r2)
       (simp_all add: Let_def WriteString_def r1 r2)
qed

lemma appends_writeTableColumns:
  assumes "\<And>ns w. ns \<in> set columns \<Longrightarrow> appends (\<lambda>w. writeNodes H w ns) w"
  shows "appends (\<lambda>w. writeTableColumns H w columns) w"
proof -
  from appends_writeColumnsLoop [of columns H w] assms obtain r where r:
    "\<And>b. writeColumnsLoop H (w\<lparr>stringBuilder := b\<rparr>) columns =
       (case r of Inl e \<Rightarrow> Inl e | Inr s \<Rightarrow> Inr (w\<lparr>stringBuilder := b @ s\<rparr>))"
    unfolding appends_def by auto
  show ?thesis
    by (intro appendsI, cases r)
       (simp_all add: writeTableColumns.simps Let_def WriteString_def r)
qed

lemma appends_writeTableHeader:
  assumes "\<And>ns w. ns \<in> set columns \<Longrightarrow> appends (\<lambda>w. writeNodes H w ns) w"
    and "\<And>w. appends (\<lambda>w. writeNodes H w [separator]) w"
  shows "appends (\<lambda>w. writeTableHeader H w columns separator) w"
proof -
  from appends_writeTableColumns [of columns H w] assms(1) obtain r1 where r1:
    "\<And>b. writeTableColumns H (w\<lparr>stringBuilder := b\<rparr>) columns =
       (case r1 of Inl e \<Rightarrow> Inl e | Inr s \<Rightarrow> Inr (w\<lparr>stringBuilder := b @ s\<rparr>))"
    unfolding appends_def by auto
  from assms(2) [of w] obtain r2 where r2:
    "\<And>b. writeNodes H (w\<lparr>stringBuilder := b\<rparr>) [separator] =
       (case r2 of Inl e \<Rightarrow> Inl e | Inr s \<Rightarrow> Inr (w\<lparr>stringBuilder := b @ s\<rparr>))"
    unfolding appends_def by auto
  show ?thesis
    by (intro appendsI, cases r1; cases r2)
       (simp_all add: writeTableHeader.simps r1 r2 del: writeNodes.simps)
qed

lemma appends_writeEmphasis:
  assumes "\<And>w. appends (\<lambda>w. writeNodes H w content) w"
  shows "appends (\<lambda>w. writeEmphasis H w kind content) w"
proof -
  from assms [of w] obtain r where r:
    "\<And>b. writeNodes H (w\<lparr>stringBuilder := b\<rparr>) content =
       (case r of Inl e \<Rightarrow> Inl e | Inr s \<Rightarrow> Inr (w\<lparr>stringBuilder := b @ s\<rparr>))"
    unfolding appends_def by auto
  show ?thesis
    by (intro appendsI, cases r; cases "map_of emphasisOrgBorders kind")
       (simp_all add: writeEmphasis.simps Let_def WriteString_def r)
qed

lemma appends_writeFootnoteLink:
  assumes "\<And>dname ps rest inl w. defn = Some (FootnoteDefinition dname (Paragraph ps # rest) inl)
     \<Longrightarrow> appends (\<lambda>w. writeNodes H w ps) w"
  shows "appends (\<lambda>w. writeFootnoteLink H w name defn) w"
proof (cases defn)
  case None
  then show ?thesis
    by (intro appendsI) (simp add: writeFootnoteLink.simps Let_def WriteString_def)
next
  case (Some d)
  obtain dname dchildren inl where d: "d = FootnoteDefinition dname dchildren inl"
    by (cases d)
  show ?thesis
  proof (cases dchildren)
    case Nil
    with Some d show ?thesis
      by (intro appendsI) (simp add: writeFootnoteLink.simps Let_def WriteString_def)
  next
    case (Cons c rest)
    show ?thesis
    proof (cases "\<exists>ps. c = Paragraph ps")
      case True
      then obtain ps where c: "c = Paragraph ps" by blast
      from assms [of dname ps rest inl w] Some d Cons c obtain r where r:
        "\<And>b. writeNodes H (w\<lparr>stringBuilder := b\<rparr>) ps =
           (case r of Inl e \<Rightarrow> Inl e | Inr s \<Rightarrow> Inr (w\<lparr>stringBuilder := b @ s\<rparr>))"
        unfolding appends_def by auto
      from Some d Cons c show ?thesis
        by (intro appendsI, cases r)
           (simp_all add: writeFootnoteLink.simps Let_def WriteString_def r)
    next
      case False
      with Some d Cons show ?thesis
        by (intro appendsI, cases c)
           (simp_all add: writeFootnoteLink.simps Let_def WriteString_def)
    qed
  qed
qed

lemma appends_writeRegularLink:
  "appends (\<lambda>w. writeRegularLink H w url description autoLink) w"
  by (rule appendsI)
     (simp add: writeRegularLink.simps Let_def WriteString_def emptyClone_def String_def
        split: sum.split option.split)

lemma appends_writeNode_paragraph:
  "(\<forall>w. appends (\<lambda>w. writeNode H w n) w) \<and>
   (\<forall>ps. n = Paragraph ps \<longrightarrow> (\<forall>w. appends (\<lambda>w. writeNodes H w ps) w))"
proof (induction n)
  case (Comment content)
  show ?case by (simp add: writeComment_def WriteString_def appendsI)
next
  case (Keyword key val)
  show ?case by (simp add: writeKeyword_def WriteString_def appendsI)
next
  case (NodeWithMeta node caption attrs)
  have "appends (\<lambda>w. writeNodes H w ns) w" if "ns \<in> set caption" for ns w
    by (rule appends_writeNodes) (use NodeWithMeta.IH(2) that in blast)
  moreover have "appends (\<lambda>w. writeNodes H w [node]) w" for w
    by (rule appends_writeNodes) (use NodeWithMeta.IH(1) in simp)
  ultimately show ?case by (simp add: appends_writeNodeWithMeta)
next
  case (Headline lvl status priority title tags children)
  have "appends (\<lambda>w. writeNodes H w children) w" for w
    by (rule appends_writeNodes) (use Headline.IH(2) in blast)
  then show ?case by (simp add: appends_writeHeadline)
next
  case (Block name parameters children)
  have "appends (\<lambda>w. writeNodes H w children) w" for w
    by (rule appends_writeNodes) (use Block.IH in blast)
  then show ?case by (simp add: appends_writeBlock)
next
  case (FootnoteDefinitionNode f)
  obtain name children inline where f: "f = FootnoteDefinition name children inline"
    by (cases f)
  have "appends (\<lambda>w. writeNodes H w children) w" for w
    by (rule appends_writeNodes) (use FootnoteDefinitionNode.IH f in simp)
  then show ?case by (simp add: f appends_writeFootnoteDefinition)
next
  case (List items)
  have "appends (\<lambda>w. writeNodes H w items) w" for w
    by (rule appends_writeNodes) (use List.IH in blast)
  then show ?case by (simp add: writeList.simps)
next
  case (ListItem bullet children)
  show ?case by (simp add: appends_writeListItem)
next
  case (Table header rows)
  have "appends (\<lambda>w. writeNodes H w rows) w" for w
    by (rule appends_writeNodes) (use Table.IH(2) in blast)
  moreover have "appends (\<lambda>w. writeNodes H w [header]) w" for w
    by (rule appends_writeNodes) (use Table.IH(1) in simp)
  ultimately show ?case by (simp add: appends_writeTable)
next
  case (TableHeader columns separator)
  have "appends (\<lambda>w. writeNodes H w ns) w" if "ns \<in> set columns" for ns w
    by (rule appends_writeNodes) (use TableHeader.IH(1) that in blast)
  moreover have "appends (\<lambda>w. writeNodes H w [separator]) w" for w
    by (rule appends_writeNodes) (use TableHeader.IH(2) in simp)
  ultimately show ?case by (simp add: appends_writeTableHeader)
next
  case (TableRow columns)
  have "appends (\<lambda>w. writeNodes H w ns) w" if "ns \<in> set columns" for ns w
    by (rule appends_writeNodes) (use TableRow.IH that in blast)
  then show ?case by (simp add: writeTableRow.simps appends_writeTableColumns)
next
  case (TableSeparator content)
  show ?case by (simp add: writeTableSeparator_def WriteString_def appendsI)
next
  case (Paragraph children)
  have "appends (\<lambda>w. writeNodes H w children) w" for w
    by (rule appends_writeNodes) (use Paragraph.IH in blast)
  then show ?case by (auto simp: appends_writeParagraph)
next
  case HorizontalRule
  show ?case by (simp add: writeHorizontalRule_def WriteString_def appendsI)
next
  case (Text content)
  show ?case by (simp add: writeText_def WriteString_def appendsI)
next
  case (Emphasis kind content)
  have "appends (\<lambda>w. writeNodes H w content) w" for w
    by (rule appends_writeNodes) (use Emphasis.IH in blast)
  then show ?case by (simp add: appends_writeEmphasis)
next
  case (LineBreak count)
  show ?case by (simp add: writeLineBreak_def Repeat_def WriteString_def appendsI)
next
  case ExplicitLineBreak
  show ?case by (simp add: writeExplicitLineBreak_def WriteString_def appendsI)
next
  case (RegularLink url description autoLink)
  show ?case by (simp add: appends_writeRegularLink)
next
  case (FootnoteLink name defn)
  have "appends (\<lambda>w. writeNodes H w ps) w"
    if "defn = Some (FootnoteDefinition dname (Paragraph ps # rest) inl)" for dname ps rest inl w
    using FootnoteLink.IH [of "FootnoteDefinition dname (Paragraph ps # rest) inl" "Paragraph ps"]
      that by simp
  then show ?case by (simp add: appends_writeFootnoteLink)
next
  case NilNode
  show ?case by (simp add: appendsI)
next
  case (Other v)
  show ?case by (simp add: appendsI)
qed

lemma writeNodes_appends: "appends (\<lambda>w. writeNodes H w ns) w"
  by (rule appends_writeNodes) (simp add: appends_writeNode_paragraph)

lemma writeNodes_rendering:
  "writeNodes H w ns =
     (case rendering H w ns of Inl e \<Rightarrow> Inl e | Inr s \<Rightarrow> Inr (WriteString w s))"
proof -
  from writeNodes_appends [of H ns w] obtain r where r:
    "\<And>b. writeNodes H (w\<lparr>stringBuilder := b\<rparr>) ns =
       (case r of Inl e \<Rightarrow> Inl e | Inr s \<Rightarrow> Inr (w\<lparr>stringBuilder := b @ s\<rparr>))"
    unfolding appends_def by auto
  have "writeNodes H (w\<lparr>stringBuilder := stringBuilder w\<rparr>) ns =
     (case rendering H w ns of Inl e \<Rightarrow> Inl e | Inr s \<Rightarrow> Inr (WriteString w s))"
    unfolding rendering_def emptyClone_def WriteString_def String_def r
    by (cases r) simp_all
  then show ?thesis by simp
qed

section \<open>The claims\<close>

text \<open>
  In the statements below, \<open>rendering H w ns\<close> is the text that the node sequence \<open>ns\<close>
  renders to under the indentation and tags column of \<open>w\<close>. By \<open>writeNodes_rendering\<close>,
  dispatching \<open>ns\<close> into any buffer appends exactly this text to it.
\<close>

lemma WriteString_WriteString: "WriteString (WriteString w a) b = WriteString w (a @ b)"
  by (simp add: WriteString_def)

lemma rendering_WriteString [simp]: "rendering H (WriteString w x) ns = rendering H w ns"
  by (simp add: rendering_def emptyClone_def WriteString_def)

lemma rendering_buffer [simp]: "rendering H (w\<lparr>stringBuilder := x\<rparr>) ns = rendering H w ns"
  by (simp add: rendering_def emptyClone_def)

lemma indent_WriteString [simp]: "indent (WriteString w x) = indent w"
  by (simp add: WriteString_def)

lemma TagsColumn_WriteString [simp]: "TagsColumn (WriteString w x) = TagsColumn w"
  by (simp add: WriteString_def)

lemma writeNodes_append:
  "writeNodes H w (xs @ ys) =
     (case writeNodes H w xs of Inl e \<Rightarrow> Inl e | Inr w' \<Rightarrow> writeNodes H w' ys)"
  by (induction xs arbitrary: w) (simp_all split: sum.split)

text \<open>
  Claim C9. A footnote definition without children renders to \<^verbatim>\<open>[fn:name]\<close> followed
  by one space and nothing else. With a first child \<open>c\<close>, the space is left out exactly
  when \<^verbatim>\<open>isEmptyLineParagraph\<close> holds of \<open>c\<close>, and the children are dispatched after it.
\<close>
theorem writeFootnoteDefinition_separating_space:
  "writeFootnoteDefinition H w name [] = Inr (WriteString w (''[fn:'' @ name @ ''] ''))
   \<and> writeFootnoteDefinition H w name (c # cs) =
       writeNodes H
         (WriteString w (''[fn:'' @ name @ '']'' @ (if isEmptyLineParagraph H c then [] else '' '')))
         (c # cs)"
  by (simp add: writeFootnoteDefinition.simps Let_def WriteString_def)

text \<open>
  Claim C7. In a node sequence, a value outside the variants of the type switch ends the
  render with the panic \<open>BadNode\<close> that carries this very value, once the nodes before it
  are written (a panic of one of them comes first); the render of such a sequence never
  succeeds. A nil node contributes nothing: the sequence renders as it does without it.
\<close>
theorem writeNodes_unknown_aborts_nil_skipped:
  "writeNodes H w (pre @ Other v # post) =
     (case writeNodes H w pre of Inl e \<Rightarrow> Inl e | Inr w' \<Rightarrow> Inl (BadNode (Other v)))
   \<and> isl (writeNodes H w (pre @ Other v # post))
   \<and> writeNodes H w (pre @ NilNode # post) = writeNodes H w (pre @ post)"
  by (simp add: writeNodes_append split: sum.split)

text \<open>
  Claim C8. An emphasis whose kind is a key of \<^verbatim>\<open>emphasisOrgBorders\<close> renders to the
  left border, the rendering of its content and the right border; a kind that is no key
  panics with \<open>BadEmphasis\<close>, which carries the emphasis node. The table has the eight keys
  listed; bold, subscript and superscript have the borders the specification names.
\<close>
theorem writeEmphasis_borders:
  "writeEmphasis H w kind content =
     (case map_of emphasisOrgBorders kind of
        None \<Rightarrow> Inl (BadEmphasis (Emphasis kind content))
      | Some borders \<Rightarrow>
          (case rendering H w content of
             Inl e \<Rightarrow> Inl e
           | Inr s \<Rightarrow> Inr (WriteString w (borders ! 0 @ s @ borders ! 1))))
   \<and> map_of emphasisOrgBorders ''*'' = Some [''*'', ''*'']
   \<and> map_of emphasisOrgBorders ''_{}'' = Some [''_{'', ''}'']
   \<and> map_of emphasisOrgBorders ''^{}'' = Some [''^{'', ''}'']
   \<and> dom (map_of emphasisOrgBorders) = {''_'', ''*'', ''/'', ''+'', ''~'', ''='', ''_{}'', ''^{}''}"
proof -
  have "writeEmphasis H w kind content =
     (case map_of emphasisOrgBorders kind of
        None \<Rightarrow> Inl (BadEmphasis (Emphasis kind content))
      | Some borders \<Rightarrow>
          (case rendering H w content of
             Inl e \<Rightarrow> Inl e
           | Inr s \<Rightarrow> Inr (WriteString w (borders ! 0 @ s @ borders ! 1))))"
    by (cases "map_of emphasisOrgBorders kind"; cases "rendering H w content")
       (simp_all add: writeEmphasis.simps Let_def writeNodes_rendering [of H "WriteString w x" for x]
          WriteString_WriteString)
  moreover have "dom (map_of emphasisOrgBorders) =
      {''_'', ''*'', ''/'', ''+'', ''~'', ''='', ''_{}'', ''^{}''}"
    by (auto simp: emphasisOrgBorders_def dom_map_of_conv_image_fst)
  ultimately show ?thesis by (simp add: emphasisOrgBorders_def)
qed

lemma writeFootnotesLoop_filter:
  "writeFootnotesLoop H w ds =
     writeNodes H w (map FootnoteDefinitionNode (filter (\<lambda>f. \<not> Inline f) ds))"
  by (induction ds arbitrary: w) (simp_all split: sum.split)

text \<open>
  Claim C3. \<^verbatim>\<open>writeFootnotes\<close> leaves the writer as it is when the table has no
  definitions. Otherwise it writes the headline line \<^verbatim>\<open>* Title\<close> and then dispatches,
  in the order of \<^verbatim>\<open>Ordered()\<close>, exactly the definitions that are not flagged inline.
\<close>
theorem writeFootnotes_section:
  "writeFootnotes H w d =
     (if Definitions (Footnotes d) = [] then Inr w
      else writeNodes H (WriteString w (''* '' @ Title (Footnotes d) @ NL))
             (map FootnoteDefinitionNode
                (filter (\<lambda>f. \<not> Inline f) (Ordered H (Footnotes d)))))"
  by (simp add: writeFootnotes_def Let_def writeFootnotesLoop_filter)

lemma dropWhile_sep_Nil: "dropWhile (\<lambda>c. c \<noteq> sep) s = [] \<longleftrightarrow> sep \<notin> set s"
  by (simp add: dropWhile_eq_Nil_conv) blast

lemma Split_cases:
  "Split s sep =
     (if sep \<in> set s
      then takeWhile (\<lambda>c. c \<noteq> sep) s # Split (tl (dropWhile (\<lambda>c. c \<noteq> sep) s)) sep
      else [s])"
proof (cases "sep \<in> set s")
  case False
  then have "dropWhile (\<lambda>c. c \<noteq> sep) s = []"
    by (rule iffD2 [OF dropWhile_sep_Nil])
  with False show ?thesis
    by (simp only: Split.simps [of s sep] list.case if_False)
next
  case True
  then have "dropWhile (\<lambda>c. c \<noteq> sep) s \<noteq> []"
    by (simp only: dropWhile_sep_Nil not_not)
  then obtain x rest where "dropWhile (\<lambda>c. c \<noteq> sep) s = x # rest"
    by (meson neq_Nil_conv)
  with True show ?thesis
    by (simp only: Split.simps [of s sep] list.case if_True list.sel)
qed

lemma Split_not_Nil: "Split s sep \<noteq> []"
  by (subst Split_cases) simp

lemma split_at_first:
  assumes "sep \<in> set s"
  shows "s = takeWhile (\<lambda>c. c \<noteq> sep) s @ sep # tl (dropWhile (\<lambda>c. c \<noteq> sep) s)"
proof -
  from assms have ne: "dropWhile (\<lambda>c. c \<noteq> sep) s \<noteq> []"
    by (simp only: dropWhile_sep_Nil not_not)
  then have "hd (dropWhile (\<lambda>c. c \<noteq> sep) s) = sep"
    using hd_dropWhile [of "\<lambda>c. c \<noteq> sep" s] by simp
  with ne have "dropWhile (\<lambda>c. c \<noteq> sep) s = sep # tl (dropWhile (\<lambda>c. c \<noteq> sep) s)"
    by (cases "dropWhile (\<lambda>c. c \<noteq> sep) s") simp_all
  then show ?thesis
    using takeWhile_dropWhile_id [of "\<lambda>c. c \<noteq> sep" s] by simp
qed

lemma concat_Split: "concat (map (\<lambda>l. l @ [sep]) (Split s sep)) = s @ [sep]"
proof (induction "length s" arbitrary: s rule: less_induct)
  case less
  show ?case
  proof (cases "sep \<in> set s")
    case False
    then show ?thesis by (subst Split_cases) simp
  next
    case True
    let ?rest = "tl (dropWhile (\<lambda>c. c \<noteq> sep) s)"
    from split_at_first [OF True] have s: "s = takeWhile (\<lambda>c. c \<noteq> sep) s @ sep # ?rest" .
    then have "length s = length (takeWhile (\<lambda>c. c \<noteq> sep) s) + Suc (length ?rest)"
      by (metis length_append length_Cons)
    then have "length ?rest < length s" by simp
    then have "concat (map (\<lambda>l. l @ [sep]) (Split ?rest sep)) = ?rest @ [sep]"
      by (rule less)
    with True show ?thesis
      by (subst Split_cases, subst (3) s) simp
  qed
qed

lemma Join_Cons: "Join (x # xs) sep = (if xs = [] then x else x @ sep @ Join xs sep)"
  by (cases xs) simp_all

lemma Join_Split: "Join (Split s sep) [sep] = s"
proof (induction "length s" arbitrary: s rule: less_induct)
  case less
  show ?case
  proof (cases "sep \<in> set s")
    case False
    then show ?thesis by (subst Split_cases) simp
  next
    case True
    let ?rest = "tl (dropWhile (\<lambda>c. c \<noteq> sep) s)"
    from split_at_first [OF True] have s: "s = takeWhile (\<lambda>c. c \<noteq> sep) s @ sep # ?rest" .
    then have "length s = length (takeWhile (\<lambda>c. c \<noteq> sep) s) + Suc (length ?rest)"
      by (metis length_append length_Cons)
    then have "length ?rest < length s" by simp
    then have "Join (Split ?rest sep) [sep] = ?rest"
      by (rule less)
    with True show ?thesis
      by (subst Split_cases, subst (3) s) (simp add: Join_Cons Split_not_Nil)
  qed
qed

text \<open>
  Claim C4. For a block of a raw kind whose first child is a Text, the writer emits the
  opening line (indentation, \<^verbatim>\<open>#+BEGIN_\<close>, the name, and the parameters joined by
  spaces when there are any), then every line of the content, as \<^verbatim>\<open>strings.Split\<close>
  cuts it at newlines, with the indentation before it and a newline after it, then the
  closing line. The lines are copied as they are, whatever they contain: joined by
  newlines they are the content again, so with an empty indentation the body of the
  block is the content followed by a newline.
\<close>
theorem writeBlock_raw_verbatim:
  assumes "isRawTextBlock H name"
  shows "writeBlock H w name parameters (Text content # rest) =
           Inr (WriteString w
                  (indent w @ ''#+BEGIN_'' @ name
                   @ (if parameters = [] then [] else '' '' @ Join parameters '' '') @ NL
                   @ concat (map (\<lambda>line. indent w @ line @ NL) (Split content (CHR 0x0A)))
                   @ indent w @ ''#+END_'' @ name @ NL))
         \<and> Join (Split content (CHR 0x0A)) NL = content
         \<and> concat (map (\<lambda>line. line @ NL) (Split content (CHR 0x0A))) = content @ NL"
  using assms
  by (simp add: writeBlock.simps Let_def WriteString_def writeRawLines_eq Join_Split concat_Split)

text \<open>
  An instance: a source block whose content has a line \<^verbatim>\<open>#+END_SRC\<close> and markup.
\<close>

theorem writeBlock_raw_verbatim_witness:
  "isRawTextBlock exampleHelpers ''SRC''
   \<and> writeBlock exampleHelpers NewOrgWriter ''SRC'' [''org'']
        [Text ''a\<newline>#+END_SRC\<newline>*b*''] =
      Inr (WriteString NewOrgWriter
             ''#+BEGIN_SRC org\<newline>a\<newline>#+END_SRC\<newline>*b*\<newline>#+END_SRC\<newline>'')
   \<and> Split ''a\<newline>#+END_SRC\<newline>*b*'' (CHR 0x0A) = [''a'', ''#+END_SRC'', ''*b*'']"
proof -
  have raw: "isRawTextBlock exampleHelpers ''SRC''"
    by (simp add: exampleHelpers_def)
  have sp: "Split ''a\<newline>#+END_SRC\<newline>*b*'' (CHR 0x0A) = [''a'', ''#+END_SRC'', ''*b*'']"
    by code_simp
  show ?thesis
    using writeBlock_raw_verbatim [OF raw, of NewOrgWriter "[''org'']"
        "''a\<newline>#+END_SRC\<newline>*b*''" "[]"]
    by (simp add: raw sp NewOrgWriter_def)
qed

lemma HasPrefix_append [simp]: "HasPrefix (p @ r) p"
  by (simp add: HasPrefix_def)

lemma TrimPrefix_append [simp]: "TrimPrefix (p @ r) p = r"
  by (simp add: TrimPrefix_def)

lemma Repeat_space: "0 \<le> n \<Longrightarrow> Repeat '' '' n = Inr (replicate (nat n) (CHR '' ''))"
  by (simp add: Repeat_def concat_replicate_single)

lemma writeListItem_unfold:
  "writeListItem H w bullet children =
     (case rendering H (w\<lparr>indent := indent w @ replicate (length bullet + 1) (CHR '' '')\<rparr>)
             children of
        Inl e \<Rightarrow> Inl e
      | Inr s \<Rightarrow>
          Inr (WriteString w
                 (indent w @ bullet @ '' ''
                  @ TrimPrefix s (indent w @ replicate (length bullet + 1) (CHR '' '')))))"
proof -
  have rep: "Repeat '' '' (len bullet + 1) = Inr (replicate (length bullet + 1) (CHR '' ''))"
    by (simp add: Repeat_space len_def nat_add_distrib)
  let ?li = "w\<lparr>indent := indent w @ replicate (length bullet + 1) (CHR '' '')\<rparr>"
  have clone: "(emptyClone (WriteString w (indent w @ bullet @ '' '')))
        \<lparr>indent := indent (WriteString w (indent w @ bullet @ '' ''))
           @ replicate (length bullet + 1) (CHR '' '')\<rparr> = emptyClone ?li"
    by (simp add: emptyClone_def WriteString_def)
  have ind: "indent li = indent ?li"
    if "writeNodes H (emptyClone ?li) children = Inr li" for li
    using that writeNodes_rendering [of H "emptyClone ?li" children]
    by (auto simp: WriteString_def emptyClone_def split: sum.splits)
  show ?thesis
    unfolding writeListItem.simps Let_def rep sum.case clone
    by (cases "writeNodes H (emptyClone ?li) children")
       (simp_all add: rendering_def WriteString_WriteString ind String_def)
qed

text \<open>
  Claim C5, as amended. A list item writes indentation, bullet and one space into the
  current buffer, renders its children in a context whose indentation is the current one
  extended by \<open>len(bullet) + 1\<close> spaces, and appends that rendering after
  \<^verbatim>\<open>strings.TrimPrefix\<close> has removed the child indentation from its front when the
  rendering begins with it, and has left it unchanged otherwise. For the bullet
  \<^verbatim>\<open>-\<close> and a paragraph of two lines, the first line follows \<^verbatim>\<open>- \<close> and the
  second is indented by two spaces.
\<close>
theorem writeListItem_child_context:
  "writeListItem H w bullet children =
     (case rendering H (w\<lparr>indent := indent w @ replicate (length bullet + 1) (CHR '' '')\<rparr>)
             children of
        Inl e \<Rightarrow> Inl e
      | Inr s \<Rightarrow>
          Inr (WriteString w
                 (indent w @ bullet @ '' ''
                  @ TrimPrefix s (indent w @ replicate (length bullet + 1) (CHR '' '')))))
   \<and> writeListItem H NewOrgWriter ''-'' [Paragraph [Text ''a'', LineBreak 1, Text ''b'']] =
       Inr (WriteString NewOrgWriter ''- a\<newline>  b\<newline>'')"
proof -
  have "writeListItem H NewOrgWriter ''-'' [Paragraph [Text ''a'', LineBreak 1, Text ''b'']] =
       Inr (WriteString NewOrgWriter ''- a\<newline>  b\<newline>'')"
    by (simp add: writeListItem.simps writeParagraph.simps Let_def NewOrgWriter_def
          emptyClone_def WriteString_def String_def writeText_def writeLineBreak_def Repeat_def
          len_def TrimPrefix_def HasPrefix_def numeral_2_eq_2)
  then show ?thesis
    using writeListItem_unfold [of H w bullet children] by simp
qed

text \<open>
  The item \<^verbatim>\<open>- a\<close>: the rendering of its paragraph does not begin with the child
  indentation of two spaces, and it is appended whole. Nothing is stripped; dropping two
  characters from it would give another text.
\<close>

theorem writeListItem_strip_counterexample:
  "rendering exampleHelpers (NewOrgWriter\<lparr>indent := ''  ''\<rparr>) [Paragraph [Text ''a'']]
     = Inr ''a\<newline>''
   \<and> \<not> HasPrefix ''a\<newline>'' ''  ''
   \<and> writeListItem exampleHelpers NewOrgWriter ''-'' [Paragraph [Text ''a'']] =
       Inr (WriteString NewOrgWriter ''- a\<newline>'')
   \<and> writeListItem exampleHelpers NewOrgWriter ''-'' [Paragraph [Text ''a'']] \<noteq>
       Inr (WriteString NewOrgWriter (''- '' @ drop (length ''  '') ''a\<newline>''))"
  by (simp add: rendering_def writeListItem.simps writeParagraph.simps Let_def NewOrgWriter_def
        emptyClone_def WriteString_def String_def writeText_def Repeat_def
        len_def TrimPrefix_def HasPrefix_def numeral_2_eq_2)

text \<open>
  Claim C10. When the rendering of a list item's children does not begin with the child
  indentation, it is appended unchanged; when it begins with it, what follows the first
  occurrence is appended, so a second occurrence stays.
\<close>
theorem writeListItem_strip_conditional:
  assumes "rendering H (w\<lparr>indent := indent w @ replicate (length bullet + 1) (CHR '' '')\<rparr>)
             children = Inr s"
  shows "(\<not> HasPrefix s (indent w @ replicate (length bullet + 1) (CHR '' '')) \<longrightarrow>
            writeListItem H w bullet children =
              Inr (WriteString w (indent w @ bullet @ '' '' @ s)))
       \<and> (\<forall>rest. s = (indent w @ replicate (length bullet + 1) (CHR '' '')) @ rest \<longrightarrow>
            writeListItem H w bullet children =
              Inr (WriteString w (indent w @ bullet @ '' '' @ rest)))"
proof -
  let ?p = "indent w @ replicate (length bullet + 1) (CHR '' '')"
  from assms have eq: "writeListItem H w bullet children =
      Inr (WriteString w (indent w @ bullet @ '' '' @ TrimPrefix s ?p))"
    by (simp add: writeListItem_unfold)
  show ?thesis
  proof (intro conjI impI allI)
    assume "\<not> HasPrefix s ?p"
    then show "writeListItem H w bullet children =
        Inr (WriteString w (indent w @ bullet @ '' '' @ s))"
      using eq by (simp add: TrimPrefix_def)
  next
    fix rest
    assume "s = ?p @ rest"
    then have "TrimPrefix s ?p = rest" by (simp only: TrimPrefix_append)
    then show "writeListItem H w bullet children =
        Inr (WriteString w (indent w @ bullet @ '' '' @ rest))"
      using eq by simp
  qed
qed

text \<open>
  Two instances: a rendering that starts with a newline is appended unchanged, and of a
  rendering that starts with four spaces only the first two are removed.
\<close>

theorem writeListItem_strip_conditional_witness:
  "rendering exampleHelpers (NewOrgWriter\<lparr>indent := ''  ''\<rparr>) [LineBreak 1, Text ''x'']
     = Inr ''\<newline>  x''
   \<and> \<not> HasPrefix ''\<newline>  x'' ''  ''
   \<and> writeListItem exampleHelpers NewOrgWriter ''-'' [LineBreak 1, Text ''x''] =
       Inr (WriteString NewOrgWriter ''- \<newline>  x'')
   \<and> rendering exampleHelpers (NewOrgWriter\<lparr>indent := ''  ''\<rparr>) [Text ''    y'']
     = Inr ''    y''
   \<and> writeListItem exampleHelpers NewOrgWriter ''-'' [Text ''    y''] =
       Inr (WriteString NewOrgWriter ''-   y'')"
proof -
  have r1: "rendering exampleHelpers
      (NewOrgWriter\<lparr>indent := indent NewOrgWriter @ replicate (length ''-'' + 1) (CHR '' '')\<rparr>)
      [LineBreak 1, Text ''x''] = Inr ''\<newline>  x''"
    by (simp add: rendering_def NewOrgWriter_def emptyClone_def WriteString_def String_def
          writeText_def writeLineBreak_def Repeat_def)
  have r2: "rendering exampleHelpers
      (NewOrgWriter\<lparr>indent := indent NewOrgWriter @ replicate (length ''-'' + 1) (CHR '' '')\<rparr>)
      [Text ''    y''] = Inr ''    y''"
    by (simp add: rendering_def NewOrgWriter_def emptyClone_def WriteString_def String_def
          writeText_def)
  have ind: "indent NewOrgWriter @ replicate (length ''-'' + 1) (CHR '' '') = ''  ''"
    by (simp add: NewOrgWriter_def)
  have np: "\<not> HasPrefix ''\<newline>  x'' ''  ''"
    by (simp add: HasPrefix_def)
  from writeListItem_strip_conditional [OF r1] writeListItem_strip_conditional [OF r2]
  show ?thesis
    using r1 r2 np unfolding ind by (simp add: NewOrgWriter_def)
qed

lemma renderings_WriteString [simp]: "renderings H (WriteString w x) cs = renderings H w cs"
  by (induction cs) (simp_all cong: sum.case_cong)

lemma renderings_length: "renderings H w cs = Inr ss \<Longrightarrow> length ss = length cs"
  by (induction cs arbitrary: ss) (auto split: sum.splits)

lemma writeColumnsLoop_eq:
  "writeColumnsLoop H w columns =
     (case renderings H w columns of
        Inl e \<Rightarrow> Inl e
      | Inr cells \<Rightarrow> Inr (WriteString w (Join (map (\<lambda>c. c @ '' |'') cells) '' '')))"
proof (induction columns arbitrary: w)
  case Nil
  show ?case by (simp add: WriteString_def)
next
  case (Cons c rest)
  show ?case
  proof (cases "rendering H w c")
    case (Inl e)
    then show ?thesis by (simp add: writeNodes_rendering [of H w c])
  next
    case s: (Inr s)
    show ?thesis
    proof (cases "renderings H w rest")
      case (Inl e)
      then have "rest \<noteq> []" by (cases rest) simp_all
      with s Inl show ?thesis
        by (simp add: writeNodes_rendering [of H w c] Let_def Cons.IH)
    next
      case (Inr cells)
      from renderings_length [OF Inr] have "cells = [] \<longleftrightarrow> rest = []" by auto
      with s Inr show ?thesis
        by (simp add: writeNodes_rendering [of H w c] Let_def Cons.IH
              WriteString_WriteString Join_Cons)
    qed
  qed
qed

text \<open>
  Claim C6. The columns of a table header or row render to the indentation, \<^verbatim>\<open>| \<close>,
  then each column's rendering followed by \<^verbatim>\<open> |\<close>, with one space between two
  columns and none after the last, then a newline; a panic in a column ends the render.
  A row is its columns, a header its columns and then its separator. A separator renders
  to the indentation, its content as it is, and a newline. The cells \<^verbatim>\<open>a\<close> and
  \<^verbatim>\<open>bb\<close> give \<^verbatim>\<open>| a | bb |\<close>.
\<close>
theorem writeTableColumns_spacing:
  "writeTableColumns H w columns =
     (case renderings H w columns of
        Inl e \<Rightarrow> Inl e
      | Inr cells \<Rightarrow>
          Inr (WriteString w
                 (indent w @ ''| '' @ Join (map (\<lambda>c. c @ '' |'') cells) '' '' @ NL)))
   \<and> writeTableRow H w columns = writeTableColumns H w columns
   \<and> writeTableHeader H w columns separator =
       (case writeTableColumns H w columns of
          Inl e \<Rightarrow> Inl e
        | Inr w' \<Rightarrow> writeNodes H w' [separator])
   \<and> writeNode H w (TableSeparator content) = Inr (WriteString w (indent w @ content @ NL))
   \<and> writeTableRow H NewOrgWriter [[Text ''a''], [Text ''bb'']] =
       Inr (WriteString NewOrgWriter ''| a | bb |\<newline>'')"
proof -
  have cols: "writeTableColumns H w columns =
     (case renderings H w columns of
        Inl e \<Rightarrow> Inl e
      | Inr cells \<Rightarrow>
          Inr (WriteString w
                 (indent w @ ''| '' @ Join (map (\<lambda>c. c @ '' |'') cells) '' '' @ NL)))"
    for w columns
    by (cases "renderings H w columns")
       (simp_all add: writeTableColumns.simps Let_def writeColumnsLoop_eq WriteString_WriteString)
  have r: "renderings H NewOrgWriter [[Text ''a''], [Text ''bb'']] = Inr [''a'', ''bb'']"
    by (simp add: rendering_def writeText_def WriteString_def emptyClone_def String_def)
  have ex: "writeTableRow H NewOrgWriter [[Text ''a''], [Text ''bb'']] =
       Inr (WriteString NewOrgWriter ''| a | bb |\<newline>'')"
    unfolding writeTableRow.simps cols r by (simp add: NewOrgWriter_def)
  show ?thesis
    using cols [of w columns] ex
    by (simp add: writeTableRow.simps writeTableHeader.simps writeTableSeparator_def
          del: writeNodes.simps)
qed

text \<open>
  Claim C2, as amended. A footnote link without a definition renders to
  \<^verbatim>\<open>[fn:name]\<close>. A link whose definition has a first child that is a paragraph renders
  to \<^verbatim>\<open>[fn:name:\<close>, the rendering of the paragraph's children and \<^verbatim>\<open>]\<close>; it
  panics only when that rendering does.
\<close>
theorem writeFootnoteLink_inline_definition:
  "writeFootnoteLink H w name None = Inr (WriteString w (''[fn:'' @ name @ '']''))
   \<and> writeFootnoteLink H w name (Some (FootnoteDefinition dname (Paragraph ps # rest) inl)) =
       (case rendering H w ps of
          Inl e \<Rightarrow> Inl e
        | Inr s \<Rightarrow> Inr (WriteString w (''[fn:'' @ name @ '':'' @ s @ '']'')))"
  by (cases "rendering H w ps")
     (simp_all add: writeFootnoteLink.simps Let_def
        writeNodes_rendering [of H "WriteString w x" for x] WriteString_WriteString)

text \<open>
  A link whose definition has no child at all: \<^verbatim>\<open>Children[0]\<close> is out of range. And a
  link whose paragraph holds a value outside the node variants: the panic of the
  dispatcher ends the render of the link.
\<close>

theorem writeFootnoteLink_no_child_counterexample:
  "writeFootnoteLink exampleHelpers NewOrgWriter ''1'' (Some (FootnoteDefinition ''1'' [] True))
     = Inl IndexOutOfRange
   \<and> writeFootnoteLink exampleHelpers NewOrgWriter ''1''
       (Some (FootnoteDefinition ''1'' [Paragraph [Other ''42'']] True))
     = Inl (BadNode (Other ''42''))"
  by (simp add: writeFootnoteLink.simps Let_def)

lemma int_sub_int_sub: "int_sub (int_sub a b) c = signed_take_bit 63 (a - b - c)"
proof -
  have "signed_take_bit 63 (signed_take_bit 63 (a - b) - c) =
        signed_take_bit 63 (signed_take_bit 63 (signed_take_bit 63 (a - b)) - signed_take_bit 63 c)"
    by (simp only: signed_take_bit_diff)
  also have "\<dots> = signed_take_bit 63 (a - b - c)"
    by (simp only: signed_take_bit_signed_take_bit min.idem signed_take_bit_diff)
  finally show ?thesis by (simp add: int_sub_def)
qed

lemma int_sub_int_sub_in_range:
  assumes "- (2 ^ 63) \<le> a - b - c" and "a - b - c < 2 ^ 63"
  shows "int_sub (int_sub a b) c = a - b - c"
  using assms by (simp add: int_sub_int_sub signed_take_bit_int_eq_self)

lemma replicate_space_Suc:
  assumes "0 < n"
  shows "CHR '' '' # replicate (nat (n - 1)) (CHR '' '') = replicate (nat n) (CHR '' '')"
proof -
  from assms have "nat n = Suc (nat (n - 1))" by simp
  then show ?thesis by (simp only: replicate_Suc)
qed

lemma headlineLine_tags:
  assumes "tags \<noteq> []"
    and "pad = col - len ('':'' @ Join tags '':'' @ '':'') - len hString"
    and "- (2 ^ 63) < pad" and "pad \<le> 2 ^ 63"
  shows "headlineLine col hString tags =
     (if pad > 0 then hString @ replicate (nat pad) (CHR '' '') @ '':'' @ Join tags '':'' @ '':''
      else hString @ '' '' @ '':'' @ Join tags '':'' @ '':'')"
proof -
  let ?t = "'':'' @ Join tags '':'' @ '':''"
  have "len (hString @ '' '') = len hString + 1" by (simp add: len_def)
  then have n: "int_sub (int_sub col (len ?t)) (len (hString @ '' '')) = pad - 1"
    using assms(2-4) by (simp add: int_sub_int_sub_in_range)
  show ?thesis
  proof (cases "pad - 1 > 0")
    case True
    then have "0 < pad" by simp
    with True assms(1) show ?thesis
      unfolding headlineLine_def Let_def n
      by (simp add: replicate_space_Suc)
  next
    case False
    show ?thesis
    proof (cases "pad = 1")
      case True
      with assms(1) show ?thesis
        unfolding headlineLine_def Let_def n by simp
    next
      case False
      with \<open>\<not> pad - 1 > 0\<close> have "\<not> pad > 0" by simp
      with \<open>\<not> pad - 1 > 0\<close> assms(1) show ?thesis
        unfolding headlineLine_def Let_def n by simp
    qed
  qed
qed

text \<open>
  Claim C1. Let a headline have tags, a level that is not negative and a title that
  renders to \<open>t\<close>. Its title line is the stars, the status and the priority when present,
  a space and \<open>t\<close>; its tag string is the tags joined by colons between two colons; and
  \<open>pad\<close> is the tags column minus the lengths of both. Where the subtraction of the code
  stays within Go's 64-bit \<^verbatim>\<open>int\<close>, the headline is written as the title line, \<open>pad\<close>
  spaces and the tag string when \<open>pad\<close> is positive, and then ends at the tags column; it
  is written as the title line, one space and the tag string otherwise. A newline
  follows, then the indentation if there are children, then the children.
\<close>
theorem writeHeadline_tags_alignment:
  assumes "tags \<noteq> []"
    and "0 \<le> lvl"
    and "rendering H w title = Inr t"
    and "title_line = replicate (nat lvl) (CHR ''*'')
           @ (if status = [] then [] else '' '' @ status)
           @ (if priority = [] then [] else '' [#'' @ priority @ '']'')
           @ '' '' @ t"
    and "tag_string = '':'' @ Join tags '':'' @ '':''"
    and "pad = TagsColumn w - len tag_string - len title_line"
    and "- (2 ^ 63) < pad" and "pad \<le> 2 ^ 63"
  shows "writeHeadline H w lvl status priority title tags children =
           writeNodes H
             (WriteString w
                ((if pad > 0 then title_line @ replicate (nat pad) (CHR '' '') @ tag_string
                  else title_line @ '' '' @ tag_string)
                 @ NL @ (if children = [] then [] else indent w)))
             children
         \<and> (pad > 0 \<longrightarrow>
              len (title_line @ replicate (nat pad) (CHR '' '') @ tag_string) = TagsColumn w)"
proof -
  have prefix: "title_line = headlinePrefix lvl status priority @ t"
    using assms(4) by (simp add: headlinePrefix_def)
  have "writeNodes H (w\<lparr>stringBuilder := headlinePrefix lvl status priority\<rparr>) title =
      Inr (w\<lparr>stringBuilder := title_line\<rparr>)"
    using assms(3)
    by (simp add: writeNodes_rendering
          [of H "w\<lparr>stringBuilder := headlinePrefix lvl status priority\<rparr>" title]
          WriteString_def prefix)
  then have "writeHeadline H w lvl status priority title tags children =
      writeNodes H
        (w\<lparr>stringBuilder := stringBuilder w
            @ headlineLine (TagsColumn w) title_line tags
            @ NL @ (if children \<noteq> [] then indent w else [])\<rparr>)
        children"
    by (simp add: writeHeadline_unfold [OF assms(2)])
  moreover have "headlineLine (TagsColumn w) title_line tags =
     (if pad > 0 then title_line @ replicate (nat pad) (CHR '' '') @ tag_string
      else title_line @ '' '' @ tag_string)"
    using headlineLine_tags [OF assms(1) _ assms(7,8), of "TagsColumn w" title_line] assms(5,6)
    by simp
  moreover have "(if children \<noteq> [] then indent w else []) = (if children = [] then [] else indent w)"
    by simp
  ultimately have main: "writeHeadline H w lvl status priority title tags children =
           writeNodes H
             (WriteString w
                ((if pad > 0 then title_line @ replicate (nat pad) (CHR '' '') @ tag_string
                  else title_line @ '' '' @ tag_string)
                 @ NL @ (if children = [] then [] else indent w)))
             children"
    by (simp only: WriteString_def)
  have "len (title_line @ replicate (nat pad) (CHR '' '') @ tag_string) = TagsColumn w"
    if "pad > 0"
    using that assms(6) by (simp add: len_def)
  with main show ?thesis by blast
qed

text \<open>
  The headline \<^verbatim>\<open>Foo\<close> with the tags \<^verbatim>\<open>a\<close> and \<^verbatim>\<open>b\<close>: at column 10 the padding
  is 0 and the tags follow one space; at column 20 the line is 20 characters long.
\<close>

theorem writeHeadline_tags_alignment_witness:
  "rendering exampleHelpers (NewOrgWriter\<lparr>TagsColumn := 10\<rparr>) [Text ''Foo''] = Inr ''Foo''
   \<and> writeHeadline exampleHelpers (NewOrgWriter\<lparr>TagsColumn := 10\<rparr>)
        1 [] [] [Text ''Foo''] [''a'', ''b''] [] =
      Inr (WriteString (NewOrgWriter\<lparr>TagsColumn := 10\<rparr>) ''* Foo :a:b:\<newline>'')
   \<and> writeHeadline exampleHelpers (NewOrgWriter\<lparr>TagsColumn := 20\<rparr>)
        1 [] [] [Text ''Foo''] [''a'', ''b''] [] =
      Inr (WriteString (NewOrgWriter\<lparr>TagsColumn := 20\<rparr>) ''* Foo          :a:b:\<newline>'')
   \<and> length ''* Foo          :a:b:'' = 20"
proof -
  have r: "rendering exampleHelpers (NewOrgWriter\<lparr>TagsColumn := c\<rparr>) [Text ''Foo''] = Inr ''Foo''"
    for c
    by (simp add: rendering_def writeText_def WriteString_def emptyClone_def String_def)
  have a: "writeHeadline exampleHelpers (NewOrgWriter\<lparr>TagsColumn := 10\<rparr>)
        1 [] [] [Text ''Foo''] [''a'', ''b''] [] =
      Inr (WriteString (NewOrgWriter\<lparr>TagsColumn := 10\<rparr>) ''* Foo :a:b:\<newline>'')"
    using writeHeadline_tags_alignment [of "[''a'', ''b'']" 1 exampleHelpers
        "NewOrgWriter\<lparr>TagsColumn := 10\<rparr>" "[Text ''Foo'']" "''Foo''" "''* Foo''" "[]" "[]"
        "'':a:b:''" 0 "[]", OF _ _ r]
    by (simp add: len_def NewOrgWriter_def)
  have b: "writeHeadline exampleHelpers (NewOrgWriter\<lparr>TagsColumn := 20\<rparr>)
        1 [] [] [Text ''Foo''] [''a'', ''b''] [] =
      Inr (WriteString (NewOrgWriter\<lparr>TagsColumn := 20\<rparr>) ''* Foo          :a:b:\<newline>'')"
    using writeHeadline_tags_alignment [of "[''a'', ''b'']" 1 exampleHelpers
        "NewOrgWriter\<lparr>TagsColumn := 20\<rparr>" "[Text ''Foo'']" "''Foo''" "''* Foo''" "[]" "[]"
        "'':a:b:''" 10 "[]", OF _ _ r]
    by (simp add: len_def NewOrgWriter_def eval_nat_numeral)
  from a b r [of 10] show ?thesis by simp
qed

end
